theory Spec2Isabelle
  imports Main
begin

section \<open>The buffer of \<^verbatim>\<open>src/buffer.h\<close>\<close>

text \<open>
  \<^verbatim>\<open>Buffer<_Typ>\<close> is a \<^verbatim>\<open>std::deque<_Typ>\<close> with two direction fields and a mutex.
  The deque is a list whose head is the deque's front. Every member function holds the
  mutex from its first statement to its return, so a call is one atomic step of the
  sequential model below; the mutex itself has no field in the model.

  The enumeration \<^verbatim>\<open>PushPopType\<close> has the two enumerators \<^verbatim>\<open>Front\<close> and \<^verbatim>\<open>Rear\<close>; the
  switches of the source have a case for each and no default.
\<close>

datatype PushPopType = Front | Rear

record 'a Buffer =
  m_ePushType :: PushPopType
  m_ePopType :: PushPopType
  m_buffer :: "'a list"

text \<open>
  The constructor stores its two arguments and resizes the deque to length 0.
  Its default arguments are \<^verbatim>\<open>ePushTyp = PushPopType::Rear\<close> and
  \<^verbatim>\<open>ePopTyp = PushPopType::Front\<close>.
\<close>

definition new_Buffer :: "PushPopType \<Rightarrow> PushPopType \<Rightarrow> 'a Buffer" where
  "new_Buffer ePushTyp ePopTyp =
     \<lparr>m_ePushType = ePushTyp, m_ePopType = ePopTyp, m_buffer = []\<rparr>"

definition default_Buffer :: "'a Buffer" where
  "default_Buffer = new_Buffer Rear Front"

text \<open>\<^verbatim>\<open>void push (_Typ &data)\<close>: \<^verbatim>\<open>emplace_front\<close> or \<^verbatim>\<open>emplace_back\<close> by the push type.\<close>

definition push :: "'a Buffer \<Rightarrow> 'a \<Rightarrow> 'a Buffer" where
  "push b data =
     (case m_ePushType b of
        Front \<Rightarrow> b\<lparr>m_buffer := data # m_buffer b\<rparr>
      | Rear \<Rightarrow> b\<lparr>m_buffer := m_buffer b @ [data]\<rparr>)"

text \<open>
  \<^verbatim>\<open>void push (std::vector<_Typ> &dataList)\<close>: one pass over the vector, front to back,
  with the same switch inside the loop body.
\<close>

primrec push_list :: "'a Buffer \<Rightarrow> 'a list \<Rightarrow> 'a Buffer" where
  "push_list b [] = b"
| "push_list b (data # dataList) =
     push_list
       (case m_ePushType b of
          Front \<Rightarrow> b\<lparr>m_buffer := data # m_buffer b\<rparr>
        | Rear \<Rightarrow> b\<lparr>m_buffer := m_buffer b @ [data]\<rparr>)
       dataList"

text \<open>
  \<^verbatim>\<open>void pop (_Typ &data)\<close>: the result is written to the caller's variable \<^verbatim>\<open>data\<close>, so
  the model takes the variable's value before the call and returns its value after the
  call beside the new buffer. On an empty deque the body of the \<^verbatim>\<open>if\<close> is skipped and
  neither the deque nor \<^verbatim>\<open>data\<close> is written. \<^verbatim>\<open>front()\<close> and \<^verbatim>\<open>back()\<close> are only
  reached on a non-empty deque.
\<close>

definition pop :: "'a Buffer \<Rightarrow> 'a \<Rightarrow> 'a Buffer \<times> 'a" where
  "pop b data =
     (if m_buffer b \<noteq> [] then
        (case m_ePopType b of
           Front \<Rightarrow> (b\<lparr>m_buffer := tl (m_buffer b)\<rparr>, hd (m_buffer b))
         | Rear \<Rightarrow> (b\<lparr>m_buffer := butlast (m_buffer b)\<rparr>, last (m_buffer b)))
      else (b, data))"

text \<open>
  \<^verbatim>\<open>void pop (std::vector<_Typ> &dataList)\<close>, the drain: on a non-empty deque every element
  is \<^verbatim>\<open>emplace_back\<close>ed to the caller's vector, iterating the deque forwards for
  \<^verbatim>\<open>Front\<close> and through the \<^verbatim>\<open>reverse\<close> wrapper (\<^verbatim>\<open>rbegin\<close> to \<^verbatim>\<open>rend\<close>) for \<^verbatim>\<open>Rear\<close>;
  then the deque is cleared. The vector is never cleared.
\<close>

definition emplace_all :: "'a list \<Rightarrow> 'a list \<Rightarrow> 'a list" where
  "emplace_all parts dataList = fold (\<lambda>part dl. dl @ [part]) parts dataList"

definition pop_all :: "'a Buffer \<Rightarrow> 'a list \<Rightarrow> 'a Buffer \<times> 'a list" where
  "pop_all b dataList =
     (if m_buffer b \<noteq> [] then
        (b\<lparr>m_buffer := []\<rparr>,
         (case m_ePopType b of
            Front \<Rightarrow> emplace_all (m_buffer b) dataList
          | Rear \<Rightarrow> emplace_all (rev (m_buffer b)) dataList))
      else (b, dataList))"

text \<open>
  \<^verbatim>\<open>size_t size(void)\<close> reads the deque's size. A deque never holds more than
  \<^verbatim>\<open>max_size()\<close> elements, which fits \<^verbatim>\<open>size_t\<close>, so the count is a natural number.
\<close>

definition size_buf :: "'a Buffer \<Rightarrow> nat" where
  "size_buf b = length (m_buffer b)"

subsection \<open>Callers\<close>

text \<open>
  A caller that pushes the items of a list one call at a time, and a caller that calls
  the single pop \<open>n\<close> times on one variable \<^verbatim>\<open>data\<close>, recording the variable after each
  call.
\<close>

primrec pushes :: "'a Buffer \<Rightarrow> 'a list \<Rightarrow> 'a Buffer" where
  "pushes b [] = b"
| "pushes b (p # ps) = pushes (push b p) ps"

primrec pops :: "nat \<Rightarrow> 'a Buffer \<Rightarrow> 'a \<Rightarrow> 'a Buffer \<times> 'a list" where
  "pops 0 b data = (b, [])"
| "pops (Suc n) b data =
     (case pop b data of
        (b', data') \<Rightarrow> (case pops n b' data' of (b'', out) \<Rightarrow> (b'', data' # out)))"

text \<open>
  A sequential caller: a list of calls run one after another on one buffer, with one
  output variable and one output vector. The run counts the items handed to the push
  calls, and the items taken out: a drain takes out as many as it appends to the
  vector, a single pop takes out one if \<^verbatim>\<open>size()\<close> was not 0 before it.
\<close>

datatype 'a call = Push 'a | PushList "'a list" | Pop | PopAll | Size

record 'a run_state =
  buf :: "'a Buffer"
  var :: 'a
  vec :: "'a list"
  pushed :: nat
  removed :: nat

fun call_step :: "'a run_state \<Rightarrow> 'a call \<Rightarrow> 'a run_state" where
  "call_step s (Push x) = s\<lparr>buf := push (buf s) x, pushed := pushed s + 1\<rparr>"
| "call_step s (PushList xs) =
     s\<lparr>buf := push_list (buf s) xs, pushed := pushed s + length xs\<rparr>"
| "call_step s Pop =
     (case pop (buf s) (var s) of
        (b', data') \<Rightarrow>
          s\<lparr>buf := b', var := data',
            removed := removed s + (if size_buf (buf s) = 0 then 0 else 1)\<rparr>)"
| "call_step s PopAll =
     (case pop_all (buf s) (vec s) of
        (b', dataList') \<Rightarrow>
          s\<lparr>buf := b', vec := dataList',
            removed := removed s + (length dataList' - length (vec s))\<rparr>)"
| "call_step s Size = s"

definition run_calls :: "'a run_state \<Rightarrow> 'a call list \<Rightarrow> 'a run_state" where
  "run_calls s cs = fold (\<lambda>c s. call_step s c) cs s"

definition start :: "PushPopType \<Rightarrow> PushPopType \<Rightarrow> 'a \<Rightarrow> 'a list \<Rightarrow> 'a run_state" where
  "start ePushTyp ePopTyp data dataList =
     \<lparr>buf = new_Buffer ePushTyp ePopTyp, var = data, vec = dataList,
      pushed = 0, removed = 0\<rparr>"

section \<open>Basic facts\<close>

lemma emplace_all_append: "emplace_all parts dataList = dataList @ parts"
  unfolding emplace_all_def by (induction parts arbitrary: dataList) simp_all

lemma push_list_pushes: "push_list b xs = pushes b xs"
  by (induction xs arbitrary: b) (simp_all add: push_def)

lemma pushes_type: "m_ePushType (pushes b ps) = m_ePushType b \<and> m_ePopType (pushes b ps) = m_ePopType b"
  by (induction ps arbitrary: b) (simp_all add: push_def split: PushPopType.split)

lemma pushes_Rear: "m_ePushType b = Rear \<Longrightarrow> m_buffer (pushes b ps) = m_buffer b @ ps"
  by (induction ps arbitrary: b) (simp_all add: push_def)

lemma pushes_Front: "m_ePushType b = Front \<Longrightarrow> m_buffer (pushes b ps) = rev ps @ m_buffer b"
  by (induction ps arbitrary: b) (simp_all add: push_def)

lemma pops_Front:
  "m_ePopType b = Front \<Longrightarrow> m_buffer b = xs \<Longrightarrow>
   pops (length xs) b data = (b\<lparr>m_buffer := []\<rparr>, xs)"
proof (induction xs arbitrary: b data)
  case Nil
  then show ?case by simp
next
  case (Cons x xs)
  have step: "pop b data = (b\<lparr>m_buffer := xs\<rparr>, x)"
    using Cons.prems by (simp add: pop_def)
  have "pops (length xs) (b\<lparr>m_buffer := xs\<rparr>) x = (b\<lparr>m_buffer := xs\<rparr>\<lparr>m_buffer := []\<rparr>, xs)"
    using Cons.prems by (intro Cons.IH) simp_all
  with step show ?case by simp
qed

lemma pops_Rear:
  "m_ePopType b = Rear \<Longrightarrow> m_buffer b = xs \<Longrightarrow>
   pops (length xs) b data = (b\<lparr>m_buffer := []\<rparr>, rev xs)"
proof (induction xs arbitrary: b data rule: rev_induct)
  case Nil
  then show ?case by simp
next
  case (snoc x xs)
  have step: "pop b data = (b\<lparr>m_buffer := xs\<rparr>, x)"
    using snoc.prems by (simp add: pop_def)
  have "pops (length xs) (b\<lparr>m_buffer := xs\<rparr>) x = (b\<lparr>m_buffer := xs\<rparr>\<lparr>m_buffer := []\<rparr>, rev xs)"
    using snoc.prems by (intro snoc.IH) simp_all
  with step show ?case by simp
qed

lemma pops_all:
  "pops (size_buf b) b data =
     (b\<lparr>m_buffer := []\<rparr>,
      (case m_ePopType b of Front \<Rightarrow> m_buffer b | Rear \<Rightarrow> rev (m_buffer b)))"
proof (cases "m_ePopType b")
  case Front
  then show ?thesis
    using pops_Front [of b "m_buffer b" data] by (simp add: size_buf_def)
next
  case Rear
  then show ?thesis
    using pops_Rear [of b "m_buffer b" data] by (simp add: size_buf_def)
qed

lemma pop_all_eq:
  "pop_all b dataList =
     (b\<lparr>m_buffer := []\<rparr>,
      dataList @ (case m_ePopType b of Front \<Rightarrow> m_buffer b | Rear \<Rightarrow> rev (m_buffer b)))"
  by (cases "m_ePopType b") (simp_all add: pop_all_def emplace_all_append)

lemma pop_types:
  "m_ePushType (fst (pop b data)) = m_ePushType b \<and> m_ePopType (fst (pop b data)) = m_ePopType b"
  by (simp add: pop_def split: PushPopType.split)

lemma pop_size: "size_buf (fst (pop b data)) = size_buf b - 1"
  by (simp add: pop_def size_buf_def split: PushPopType.split)

lemma pop_empty: "m_buffer b = [] \<Longrightarrow> pop b data = (b, data)"
  by (simp add: pop_def)

lemma pop_all_empty: "m_buffer b = [] \<Longrightarrow> pop_all b dataList = (b, dataList)"
  by (simp add: pop_all_def)

lemma call_step_types:
  "m_ePushType (buf (call_step s c)) = m_ePushType (buf s) \<and>
   m_ePopType (buf (call_step s c)) = m_ePopType (buf s)"
proof (cases c)
  case (Push x)
  then show ?thesis by (simp add: push_def split: PushPopType.split)
next
  case (PushList xs)
  then show ?thesis by (simp add: push_list_pushes pushes_type)
next
  case Pop
  then show ?thesis
    using pop_types [of "buf s" "var s"] by (simp add: split_beta)
next
  case PopAll
  then show ?thesis by (simp add: pop_all_eq)
next
  case Size
  then show ?thesis by simp
qed

lemma run_calls_types:
  "m_ePushType (buf (run_calls s cs)) = m_ePushType (buf s) \<and>
   m_ePopType (buf (run_calls s cs)) = m_ePopType (buf s)"
  unfolding run_calls_def
  by (induction cs arbitrary: s) (simp_all add: call_step_types)

lemma call_step_count:
  assumes "size_buf (buf s) + removed s = pushed s"
  shows "size_buf (buf (call_step s c)) + removed (call_step s c) = pushed (call_step s c)"
proof (cases c)
  case (Push x)
  with assms show ?thesis
    by (simp add: push_def size_buf_def split: PushPopType.split)
next
  case (PushList xs)
  have "size_buf (pushes (buf s) xs) = size_buf (buf s) + length xs"
    using pushes_Rear [of "buf s" xs] pushes_Front [of "buf s" xs]
    by (cases "m_ePushType (buf s)") (simp_all add: size_buf_def)
  with assms PushList show ?thesis by (simp add: push_list_pushes)
next
  case Pop
  have "size_buf (fst (pop (buf s) (var s))) = size_buf (buf s) - 1"
    by (rule pop_size)
  with assms Pop show ?thesis by (simp add: split_beta)
next
  case PopAll
  have "length (case m_ePopType (buf s) of Front \<Rightarrow> m_buffer (buf s) | Rear \<Rightarrow> rev (m_buffer (buf s)))
        = size_buf (buf s)"
    by (simp add: size_buf_def split: PushPopType.split)
  with assms PopAll show ?thesis by (simp add: pop_all_eq size_buf_def)
next
  case Size
  with assms show ?thesis by simp
qed

lemma run_calls_count:
  "size_buf (buf s) + removed s = pushed s \<Longrightarrow>
   size_buf (buf (run_calls s cs)) + removed (run_calls s cs) = pushed (run_calls s cs)"
  unfolding run_calls_def
  by (induction cs arbitrary: s) (simp_all add: call_step_count)

lemma call_step_empty:
  assumes "m_buffer (buf s) = []" and "c \<in> {Pop, PopAll, Size}"
  shows "call_step s c = s"
  using assms by (auto simp: pop_empty pop_all_empty size_buf_def)

lemma run_calls_empty:
  "m_buffer (buf s) = [] \<Longrightarrow> set cs \<subseteq> {Pop, PopAll, Size} \<Longrightarrow> run_calls s cs = s"
  unfolding run_calls_def
proof (induction cs)
  case Nil
  then show ?case by simp
next
  case (Cons c cs)
  then have "call_step s c = s" by (intro call_step_empty) simp_all
  with Cons show ?case by simp
qed

section \<open>Ordering of pushes and pops\<close>

text \<open>
  C1. With the default constructor (push at the rear, pop at the front), pushing
  \<open>p1, ..., pn\<close> one call at a time into the new, empty buffer and then calling the
  single pop \<open>n\<close> times returns \<open>p1, ..., pn\<close> in that order, whatever the output
  variable held before.
\<close>

theorem fifo_default:
  "snd (pops (length ps) (pushes default_Buffer ps) data) = ps"
proof -
  let ?b = "pushes (default_Buffer :: 'a Buffer) ps"
  have buf: "m_buffer ?b = ps"
    using pushes_Rear [of default_Buffer ps] by (simp add: default_Buffer_def new_Buffer_def)
  have cfg: "m_ePopType ?b = Front"
    by (simp add: pushes_type default_Buffer_def new_Buffer_def)
  show ?thesis
    using pops_all [of ?b data] by (simp add: buf cfg size_buf_def)
qed

text \<open>
  C5. Constructed with push at the rear and pop at the rear, pushing \<open>p1, ..., pn\<close> one
  call at a time into the new buffer and then calling the single pop \<open>n\<close> times returns
  \<open>pn, ..., p1\<close>: most recent first.
\<close>

theorem lifo_rear_rear:
  "snd (pops (length ps) (pushes (new_Buffer Rear Rear) ps) data) = rev ps"
proof -
  let ?b = "pushes (new_Buffer Rear Rear :: 'a Buffer) ps"
  have buf: "m_buffer ?b = ps"
    using pushes_Rear [of "new_Buffer Rear Rear" ps] by (simp add: new_Buffer_def)
  have cfg: "m_ePopType ?b = Rear"
    by (simp add: pushes_type new_Buffer_def)
  show ?thesis
    using pops_all [of ?b data] by (simp add: buf cfg size_buf_def)
qed

text \<open>
  C2. In every buffer state the drain, called on an empty vector, fills it with exactly
  the values that \<open>size()\<close> successive single pops return, in the same order; the two
  leave the same buffer behind, and its size is 0.
\<close>

theorem drain_eq_repeated_pop:
  "snd (pop_all b []) = snd (pops (size_buf b) b data) \<and>
   fst (pop_all b []) = fst (pops (size_buf b) b data) \<and>
   size_buf (fst (pop_all b [])) = 0"
proof -
  have "pops (size_buf b) b data = pop_all b []"
    by (simp only: pops_all pop_all_eq append_Nil)
  then show ?thesis by (simp add: pop_all_eq size_buf_def)
qed

text \<open>
  C3. The batch push is the sequence of single pushes of its items, in input order:
  at the rear the batch is appended as it is, at the front it ends up reversed. With
  push and pop both at the front, the batch \<open>[1, 2, 3]\<close> followed by three single pops
  gives 3, 2, 1.
\<close>

theorem push_list_sequential:
  "push_list b xs = pushes b xs \<and>
   m_buffer (push_list b xs) =
     (case m_ePushType b of Front \<Rightarrow> rev xs @ m_buffer b | Rear \<Rightarrow> m_buffer b @ xs) \<and>
   snd (pops 3 (push_list (new_Buffer Front Front) [1, 2, 3 :: int]) data) = [3, 2, 1]"
proof -
  have "m_buffer (pushes b xs) =
      (case m_ePushType b of Front \<Rightarrow> rev xs @ m_buffer b | Rear \<Rightarrow> m_buffer b @ xs)"
    by (cases "m_ePushType b") (simp_all add: pushes_Rear pushes_Front)
  moreover have "snd (pops 3 (push_list (new_Buffer Front Front) [1, 2, 3 :: int]) data) = [3, 2, 1]"
    by (simp add: new_Buffer_def pop_def eval_nat_numeral)
  ultimately show ?thesis by (simp add: push_list_pushes)
qed

section \<open>The empty buffer\<close>

text \<open>
  C4, as amended. The single pop has no return value and writes its result to the
  caller's variable. On an empty buffer (\<open>size()\<close> is 0) it writes nothing: the buffer
  and the variable are both exactly as before the call, so the variable still holds
  whatever it held.
\<close>

theorem pop_empty_no_write:
  "size_buf b = 0 \<Longrightarrow> pop b data = (b, data)"
  by (simp add: pop_empty size_buf_def)

theorem pop_empty_no_write_witness:
  "size_buf (default_Buffer :: int Buffer) = 0 \<and>
   pop (default_Buffer :: int Buffer) 7 = (default_Buffer, 7)"
proof -
  have h: "size_buf (default_Buffer :: int Buffer) = 0"
    by (simp add: size_buf_def default_Buffer_def new_Buffer_def)
  show ?thesis using h pop_empty_no_write [OF h, of 7] by simp
qed

text \<open>
  C4 as stated fails: popping the empty default buffer into a variable holding 7 leaves
  7 in the variable, and leaves the caller with the same buffer and the same variable
  as popping a buffer that held the single item 7.
\<close>

theorem pop_empty_counterexample:
  "snd (pop (default_Buffer :: int Buffer) 7) = 7 \<and>
   pop (default_Buffer :: int Buffer) 7 = pop (push default_Buffer 7) 7"
  by (simp add: pop_def push_def default_Buffer_def new_Buffer_def)

text \<open>
  C6, as amended. The drain of an empty buffer appends nothing (an empty vector stays
  empty) and leaves the buffer as it is. Any sequence of single pops, drains and size
  queries on an empty buffer leaves the buffer, the output variable and the output
  vector exactly as they were: nothing is delivered, and the variable keeps its value.
\<close>

theorem empty_pop_idempotent:
  assumes "size_buf (buf s) = 0" and "set cs \<subseteq> {Pop, PopAll, Size}"
  shows "pop_all (buf s) [] = (buf s, []) \<and>
         pop_all (buf s) (vec s) = (buf s, vec s) \<and>
         run_calls s cs = s"
  using assms by (simp add: pop_all_empty run_calls_empty size_buf_def)

theorem empty_pop_idempotent_witness:
  "size_buf (buf (start Rear Front (0::int) [])) = 0 \<and>
   set [Pop, PopAll, Pop, Size, PopAll] \<subseteq> {Pop, PopAll, Size :: int call} \<and>
   pop_all (buf (start Rear Front (0::int) [])) [] = (buf (start Rear Front (0::int) []), []) \<and>
   run_calls (start Rear Front (0::int) []) [Pop, PopAll, Pop, Size, PopAll]
     = start Rear Front (0::int) []"
proof -
  have h1: "size_buf (buf (start Rear Front (0::int) [])) = 0"
    by (simp add: start_def new_Buffer_def size_buf_def)
  have h2: "set [Pop, PopAll, Pop, Size, PopAll] \<subseteq> {Pop, PopAll, Size :: int call}"
    by simp
  show ?thesis using h1 h2 empty_pop_idempotent [OF h1 h2] by simp
qed

text \<open>
  C6 as stated fails in its "no value" signal for the single pop: two pops of the empty
  buffer into a variable holding 5 show the caller 5 and 5, exactly what two pops of a
  buffer holding 5 and 5 show.
\<close>

theorem empty_pop_signal_counterexample:
  "snd (pops 2 (new_Buffer Rear Front) (5::int)) = [5, 5] \<and>
   snd (pops 2 (pushes (new_Buffer Rear Front) [5, 5]) (5::int)) = [5, 5]"
  by (simp add: new_Buffer_def pop_def push_def eval_nat_numeral)

section \<open>Size and configuration\<close>

text \<open>
  C7. For every list of calls run one after another on a new buffer, \<open>size()\<close> at the
  end is the number of items pushed (one per single push, the length of the vector per
  batch push) minus the number of items taken out, which never exceeds the number
  pushed. A single push raises the size by exactly 1, and a single pop on a non-empty
  buffer lowers it by exactly 1.
\<close>

theorem size_accuracy:
  "size_buf (buf (run_calls (start ePushTyp ePopTyp data dataList) cs))
     = pushed (run_calls (start ePushTyp ePopTyp data dataList) cs)
       - removed (run_calls (start ePushTyp ePopTyp data dataList) cs) \<and>
   removed (run_calls (start ePushTyp ePopTyp data dataList) cs)
     \<le> pushed (run_calls (start ePushTyp ePopTyp data dataList) cs) \<and>
   size_buf (push b x) = size_buf b + 1 \<and>
   (size_buf b \<noteq> 0 \<longrightarrow> size_buf (fst (pop b d)) + 1 = size_buf b)"
proof -
  let ?s = "start ePushTyp ePopTyp data dataList"
  have "size_buf (buf ?s) + removed ?s = pushed ?s"
    by (simp add: start_def new_Buffer_def size_buf_def)
  then have "size_buf (buf (run_calls ?s cs)) + removed (run_calls ?s cs) = pushed (run_calls ?s cs)"
    by (rule run_calls_count)
  moreover have "size_buf (push b x) = size_buf b + 1"
    by (simp add: push_def size_buf_def split: PushPopType.split)
  moreover have "size_buf b \<noteq> 0 \<longrightarrow> size_buf (fst (pop b d)) + 1 = size_buf b"
    using pop_size [of b d] by simp
  ultimately show ?thesis by linarith
qed

theorem size_accuracy_witness:
  "size_buf (push default_Buffer (4::int)) \<noteq> 0 \<and>
   size_buf (fst (pop (push default_Buffer (4::int)) 0)) + 1 = size_buf (push default_Buffer (4::int)) \<and>
   size_buf (buf (run_calls (start Rear Front (0::int) []) [Push 1, PushList [2, 3], Pop, Pop, PopAll, Pop, Push 9])) = 1"
proof -
  have h: "size_buf (push default_Buffer (4::int)) \<noteq> 0"
    by (simp add: size_buf_def push_def default_Buffer_def new_Buffer_def)
  have r: "size_buf (buf (run_calls (start Rear Front (0::int) []) [Push 1, PushList [2, 3], Pop, Pop, PopAll, Pop, Push 9])) = 1"
    by (simp add: run_calls_def start_def new_Buffer_def push_def pop_def pop_all_def
        emplace_all_def size_buf_def)
  have "size_buf (fst (pop (push default_Buffer (4::int)) 0)) + 1
        = size_buf (push default_Buffer (4::int))"
    using h size_accuracy [of Rear Front "0::int" "[]" "[]" "push default_Buffer (4::int)" 4 0]
    by blast
  with h r show ?thesis by blast
qed

text \<open>
  C8. No member function writes \<^verbatim>\<open>m_ePushType\<close> or \<^verbatim>\<open>m_ePopType\<close>: after a single push, a
  batch push, a single pop, a drain, and after any list of calls (size queries
  included), both fields are what the constructor stored.
\<close>

theorem config_immutable:
  "m_ePushType (new_Buffer ePushTyp ePopTyp) = ePushTyp \<and>
   m_ePopType (new_Buffer ePushTyp ePopTyp) = ePopTyp \<and>
   m_ePushType (push b x) = m_ePushType b \<and> m_ePopType (push b x) = m_ePopType b \<and>
   m_ePushType (push_list b xs) = m_ePushType b \<and> m_ePopType (push_list b xs) = m_ePopType b \<and>
   m_ePushType (fst (pop b data)) = m_ePushType b \<and> m_ePopType (fst (pop b data)) = m_ePopType b \<and>
   m_ePushType (fst (pop_all b dataList)) = m_ePushType b \<and>
   m_ePopType (fst (pop_all b dataList)) = m_ePopType b \<and>
   m_ePushType (buf (run_calls s cs)) = m_ePushType (buf s) \<and>
   m_ePopType (buf (run_calls s cs)) = m_ePopType (buf s)"
proof -
  have "m_ePushType (push b x) = m_ePushType b \<and> m_ePopType (push b x) = m_ePopType b"
    using pushes_type [of b "[x]"] by simp
  moreover have "m_ePushType (push_list b xs) = m_ePushType b \<and> m_ePopType (push_list b xs) = m_ePopType b"
    by (simp add: push_list_pushes pushes_type)
  moreover note pop_types [of b data] run_calls_types [of s cs]
  ultimately show ?thesis by (simp add: new_Buffer_def pop_all_eq)
qed

text \<open>
  C10. The drain never clears the caller's vector: after the call the vector is its
  earlier contents followed by the drained items (the deque front to back for
  \<^verbatim>\<open>Front\<close>, back to front for \<^verbatim>\<open>Rear\<close>), so the earlier contents are still its prefix.
\<close>

theorem drain_appends:
  "snd (pop_all b dataList) = dataList @ snd (pop_all b []) \<and>
   take (length dataList) (snd (pop_all b dataList)) = dataList \<and>
   snd (pop_all b []) = (case m_ePopType b of Front \<Rightarrow> m_buffer b | Rear \<Rightarrow> rev (m_buffer b))"
  by (simp add: pop_all_eq)

end
